theory Spec2Isabelle
  imports Complex_Main
begin

section \<open>JavaScript values used by the generator\<close>

text \<open>
  The source file \<^verbatim>\<open>src/App.tsx\<close> works on \<^verbatim>\<open>number[]\<close>. A JavaScript number is
  modelled as an integer or \<^verbatim>\<open>NaN\<close>: \<open>Num n\<close> stands for the integer-valued double
  \<open>n\<close>. The arithmetic below is the exact integer arithmetic, which is what the doubles
  compute as long as every intermediate value stays below \<open>2^53\<close> in magnitude; fractions,
  infinities and the sign of zero are left out. \<^verbatim>\<open>NaN\<close> is kept because it is what an
  out-of-range array read turns into once it is multiplied.
\<close>

datatype jsnum = Num int | NaN

fun js_add :: "jsnum \<Rightarrow> jsnum \<Rightarrow> jsnum" where
  "js_add (Num a) (Num b) = Num (a + b)"
| "js_add _ _ = NaN"

fun js_sub :: "jsnum \<Rightarrow> jsnum \<Rightarrow> jsnum" where
  "js_sub (Num a) (Num b) = Num (a - b)"
| "js_sub _ _ = NaN"

fun js_mul :: "jsnum \<Rightarrow> jsnum \<Rightarrow> jsnum" where
  "js_mul (Num a) (Num b) = Num (a * b)"
| "js_mul _ _ = NaN"

text \<open>
  The operator \<^verbatim>\<open>%\<close> truncates: the result has the sign of the dividend, and a zero
  divisor gives \<^verbatim>\<open>NaN\<close>.
\<close>

definition trunc_rem :: "int \<Rightarrow> int \<Rightarrow> int" where
  "trunc_rem a b = sgn a * (\<bar>a\<bar> mod \<bar>b\<bar>)"

fun js_rem :: "jsnum \<Rightarrow> jsnum \<Rightarrow> jsnum" where
  "js_rem (Num a) (Num b) = (if b = 0 then NaN else Num (trunc_rem a b))"
| "js_rem _ _ = NaN"

text \<open>Comparisons with \<^verbatim>\<open>NaN\<close> are false.\<close>

fun js_lt :: "jsnum \<Rightarrow> jsnum \<Rightarrow> bool" where
  "js_lt (Num a) (Num b) = (a < b)"
| "js_lt _ _ = False"

fun js_strict_eq :: "jsnum \<Rightarrow> jsnum \<Rightarrow> bool" where
  "js_strict_eq (Num a) (Num b) = (a = b)"
| "js_strict_eq _ _ = False"

text \<open>
  \<^verbatim>\<open>xs[i]\<close> on an array without holes: the element, or \<^verbatim>\<open>undefined\<close> (here \<open>None\<close>)
  when \<open>i\<close> is not below the length. In arithmetic \<^verbatim>\<open>undefined\<close> converts to
  \<^verbatim>\<open>NaN\<close>.
\<close>

definition js_index :: "'a list \<Rightarrow> nat \<Rightarrow> 'a option" where
  "js_index xs i = (if i < length xs then Some (xs ! i) else None)"

fun to_number :: "jsnum option \<Rightarrow> jsnum" where
  "to_number (Some x) = x"
| "to_number None = NaN"

text \<open>\<^verbatim>\<open>Array.from({ length: n }, (_, i) => f(i))\<close>.\<close>

definition array_from :: "nat \<Rightarrow> (nat \<Rightarrow> 'a) \<Rightarrow> 'a list" where
  "array_from n f = map f [0..<n]"

text \<open>
  \<^verbatim>\<open>xs.reduce((acc, x, i) => f(acc, x, i), init)\<close>: a left fold that also passes the
  index. \<open>js_reduce_from\<close> carries the index of the next element.
\<close>

fun js_reduce_from :: "nat \<Rightarrow> ('b \<Rightarrow> 'a \<Rightarrow> nat \<Rightarrow> 'b) \<Rightarrow> 'b \<Rightarrow> 'a list \<Rightarrow> 'b" where
  "js_reduce_from i f acc [] = acc"
| "js_reduce_from i f acc (x # xs) = js_reduce_from (Suc i) f (f acc x i) xs"

definition js_reduce :: "('b \<Rightarrow> 'a \<Rightarrow> nat \<Rightarrow> 'b) \<Rightarrow> 'b \<Rightarrow> 'a list \<Rightarrow> 'b" where
  "js_reduce f init xs = js_reduce_from 0 f init xs"


section \<open>The verifier digits\<close>

text \<open>
  \<^verbatim>\<open>calculateCpfVerifier\<close>. The local array \<^verbatim>\<open>weights\<close> is \<open>cpf_weights\<close>, the local
  \<^verbatim>\<open>sum\<close> is \<open>weighted_sum\<close> of the digits and that array.
\<close>

definition cpf_weights :: "jsnum list \<Rightarrow> jsnum list" where
  "cpf_weights digits =
     array_from (length digits) (\<lambda>i. Num (int (length digits) + 1 - int i))"

definition weighted_sum :: "jsnum list \<Rightarrow> jsnum list \<Rightarrow> jsnum" where
  "weighted_sum weights digits =
     js_reduce (\<lambda>acc digit i. js_add acc (js_mul digit (to_number (js_index weights i))))
       (Num 0) digits"

definition calculateCpfVerifier :: "jsnum list \<Rightarrow> jsnum" where
  "calculateCpfVerifier digits =
     (let weights = cpf_weights digits;
          sum = weighted_sum weights digits;
          remainder = js_rem (js_mul sum (Num 10)) (Num 11)
      in if js_strict_eq remainder (Num 10) then Num 0 else remainder)"

text \<open>
  \<^verbatim>\<open>calculateCnpjVerifier\<close>. The array literal is a fresh array in every call;
  \<^verbatim>\<open>unshift(6)\<close> puts 6 in front of it when the input has 13 entries.
\<close>

definition cnpj_base_weights :: "jsnum list" where
  "cnpj_base_weights =
     [Num 5, Num 4, Num 3, Num 2, Num 9, Num 8, Num 7, Num 6, Num 5, Num 4, Num 3, Num 2]"

definition cnpj_weights :: "jsnum list \<Rightarrow> jsnum list" where
  "cnpj_weights digits =
     (if length digits = 13 then Num 6 # cnpj_base_weights else cnpj_base_weights)"

definition calculateCnpjVerifier :: "jsnum list \<Rightarrow> jsnum" where
  "calculateCnpjVerifier digits =
     (let weights = cnpj_weights digits;
          sum = weighted_sum weights digits;
          remainder = js_rem sum (Num 11)
      in if js_lt remainder (Num 2) then Num 0 else js_sub (Num 11) remainder)"


section \<open>Joining and formatting\<close>

text \<open>
  \<^verbatim>\<open>[...].join("")\<close> concatenates the decimal text of each number. \<open>digit_char\<close> is
  the character of a value below ten.
\<close>

definition digit_char :: "nat \<Rightarrow> char" where
  "digit_char n = ''0123456789'' ! n"

fun nat_to_string :: "nat \<Rightarrow> string" where
  "nat_to_string n =
     (if n < 10 then [digit_char n] else nat_to_string (n div 10) @ [digit_char (n mod 10)])"

declare nat_to_string.simps [simp del]

fun js_toString :: "jsnum \<Rightarrow> string" where
  "js_toString (Num n) =
     (if n < 0 then CHR ''-'' # nat_to_string (nat (- n)) else nat_to_string (nat n))"
| "js_toString NaN = ''NaN''"

definition js_join_empty :: "jsnum list \<Rightarrow> string" where
  "js_join_empty xs = concat (map js_toString xs)"

text \<open>
  \<^verbatim>\<open>\d\<close> (no unicode flag) matches the ten ASCII digits. Both regular expressions of
  the source are a fixed number of \<^verbatim>\<open>\d\<close>, cut into groups, and have no global flag:
  \<^verbatim>\<open>replace\<close> rewrites the leftmost run of that many digits and leaves a string
  without such a run as it is. \<open>replace_first_digits n f\<close> does this for a run of \<open>n\<close>
  digits, \<open>f\<close> building the replacement from the matched text.
\<close>

definition is_digit :: "char \<Rightarrow> bool" where
  "is_digit c = (c \<in> set ''0123456789'')"

fun replace_first_digits :: "nat \<Rightarrow> (string \<Rightarrow> string) \<Rightarrow> string \<Rightarrow> string" where
  "replace_first_digits n f [] =
     (if n = 0 then f [] else [])"
| "replace_first_digits n f (c # cs) =
     (if n \<le> length (c # cs) \<and> list_all is_digit (take n (c # cs))
      then f (take n (c # cs)) @ drop n (c # cs)
      else c # replace_first_digits n f cs)"

text \<open>
  \<^verbatim>\<open>/(\d{3})(\d{3})(\d{3})(\d{2})/\<close> with \<^verbatim>\<open>"$1.$2.$3-$4"\<close>, and
  \<^verbatim>\<open>/(\d{2})(\d{3})(\d{3})(\d{4})(\d{2})/\<close> with \<^verbatim>\<open>"$1.$2.$3/$4-$5"\<close>.
\<close>

definition cpf_template :: "string \<Rightarrow> string" where
  "cpf_template m =
     take 3 m @ ''.'' @ take 3 (drop 3 m) @ ''.'' @ take 3 (drop 6 m) @ ''-'' @ take 2 (drop 9 m)"

definition cnpj_template :: "string \<Rightarrow> string" where
  "cnpj_template m =
     take 2 m @ ''.'' @ take 3 (drop 2 m) @ ''.'' @ take 3 (drop 5 m) @ ''/''
       @ take 4 (drop 8 m) @ ''-'' @ take 2 (drop 12 m)"

definition format_cpf :: "string \<Rightarrow> string" where
  "format_cpf fullCpf = replace_first_digits 11 cpf_template fullCpf"

definition format_cnpj :: "string \<Rightarrow> string" where
  "format_cnpj fullCnpj = replace_first_digits 14 cnpj_template fullCnpj"


section \<open>The two generators\<close>

text \<open>
  The component state written by the handlers. \<^verbatim>\<open>randomDigits\<close> draws from
  \<^verbatim>\<open>Math.random\<close>; the handlers are modelled from the point where the digits have been
  drawn, so \<open>baseDigits\<close> is an argument: the array \<^verbatim>\<open>randomDigits(9)\<close> or
  \<^verbatim>\<open>randomDigits(12)\<close> returned, whose entries are \<^verbatim>\<open>Math.floor\<close> of ten times a number
  in \<open>[0, 1)\<close>.
\<close>

record app_state =
  cpf :: string
  cnpj :: string
  copiedCpf :: bool
  copiedCnpj :: bool

definition handleGenerateCpf :: "jsnum list \<Rightarrow> app_state \<Rightarrow> app_state" where
  "handleGenerateCpf baseDigits st =
     (let firstVerifier = calculateCpfVerifier baseDigits;
          secondVerifier = calculateCpfVerifier (baseDigits @ [firstVerifier]);
          fullCpf = js_join_empty (baseDigits @ [firstVerifier, secondVerifier]);
          formattedCpf = format_cpf fullCpf
      in st\<lparr>cpf := formattedCpf, copiedCpf := False\<rparr>)"

definition handleGenerateCnpj :: "jsnum list \<Rightarrow> app_state \<Rightarrow> app_state" where
  "handleGenerateCnpj baseDigits st =
     (let firstVerifier = calculateCnpjVerifier baseDigits;
          secondVerifier = calculateCnpjVerifier (baseDigits @ [firstVerifier]);
          fullCnpj = js_join_empty (baseDigits @ [firstVerifier, secondVerifier]);
          formattedCnpj = format_cnpj fullCnpj
      in st\<lparr>cnpj := formattedCnpj, copiedCnpj := False\<rparr>)"





section \<open>The rules as the specification words them\<close>

text \<open>
  A digit sequence of the specification is a sequence of integers between 0 and 9;
  \<open>map Num ds\<close> is the array the code receives for the sequence \<open>ds\<close>.
\<close>

definition digit_sequence :: "int list \<Rightarrow> bool" where
  "digit_sequence ds = list_all (\<lambda>n. 0 \<le> n \<and> n \<le> 9) ds"

definition digit_num :: "jsnum \<Rightarrow> bool" where
  "digit_num x = (case x of Num n \<Rightarrow> 0 \<le> n \<and> n \<le> 9 | NaN \<Rightarrow> False)"

text \<open>
  The CPF rule of the specification: position \<open>i\<close> of an input of length \<open>L\<close> has weight
  \<open>L + 1 - i\<close>, the remainder is \<open>(sum * 10) mod 11\<close>, and a remainder of 10 becomes 0.
  \<open>weighted_rule\<close> is the same computation for any assignment of weights to positions.
\<close>

definition position_sum :: "(nat \<Rightarrow> int) \<Rightarrow> int list \<Rightarrow> int" where
  "position_sum w ds = sum_list (map (\<lambda>i. ds ! i * w i) [0..<length ds])"

definition weighted_rule :: "(nat \<Rightarrow> int) \<Rightarrow> int list \<Rightarrow> int" where
  "weighted_rule w ds =
     (let remainder = (position_sum w ds * 10) mod 11
      in if remainder = 10 then 0 else remainder)"

definition cpf_rule :: "int list \<Rightarrow> int" where
  "cpf_rule ds = weighted_rule (\<lambda>i. int (length ds) + 1 - int i) ds"

text \<open>
  The same computation for weights given as a vector, as in the scenario of the
  specification that names the weights \<open>[9,8,7,6,5,4,3,2,1]\<close>.
\<close>

definition vector_sum :: "int list \<Rightarrow> int list \<Rightarrow> int" where
  "vector_sum ws ds = position_sum (\<lambda>i. ws ! i) ds"

definition vector_rule :: "int list \<Rightarrow> int list \<Rightarrow> int" where
  "vector_rule ws ds = weighted_rule (\<lambda>i. ws ! i) ds"

text \<open>
  The CNPJ rule of the specification: the table is laid over the last twelve positions,
  a position before them has weight 6, the remainder is \<open>sum mod 11\<close>, and the result is
  0 for a remainder below 2 and \<open>11 - remainder\<close> otherwise.
\<close>

definition cnpj_table :: "int list" where
  "cnpj_table = [5, 4, 3, 2, 9, 8, 7, 6, 5, 4, 3, 2]"

definition cnpj_weight_at :: "nat \<Rightarrow> nat \<Rightarrow> int" where
  "cnpj_weight_at L i = (if i < L - 12 then 6 else cnpj_table ! (i - (L - 12)))"

definition cnpj_rule :: "int list \<Rightarrow> int" where
  "cnpj_rule ds =
     (let remainder = position_sum (cnpj_weight_at (length ds)) ds mod 11
      in if remainder < 2 then 0 else 11 - remainder)"

text \<open>
  Reading a formatted document back: the punctuation characters of the two templates are
  removed, and a digit character stands for its value.
\<close>

definition strip_punctuation :: "string \<Rightarrow> string" where
  "strip_punctuation s = filter (\<lambda>c. c \<notin> set ''./-'') s"

definition digit_val :: "char \<Rightarrow> int" where
  "digit_val c = int (of_char c) - 48"



text \<open>
  The calculator of the specification, \<^verbatim>\<open>computeVerifier(digits, kind)\<close>, is one of the
  two functions of the source, chosen by the document kind; \<open>stage_length\<close> is its
  documented precondition on the length of the input.
\<close>

datatype document_kind = CPF | CNPJ

fun computeVerifier :: "document_kind \<Rightarrow> jsnum list \<Rightarrow> jsnum" where
  "computeVerifier CPF digits = calculateCpfVerifier digits"
| "computeVerifier CNPJ digits = calculateCnpjVerifier digits"

fun stage_length :: "document_kind \<Rightarrow> nat \<Rightarrow> bool" where
  "stage_length CPF n = (n = 9 \<or> n = 10)"
| "stage_length CNPJ n = (n = 12 \<or> n = 13)"


section \<open>The weight arrays as objects in a store\<close>

text \<open>
  In the source \<^verbatim>\<open>weights\<close> is an array object: the literal (or \<^verbatim>\<open>Array.from\<close>)
  allocates it, \<^verbatim>\<open>unshift\<close> changes it in place, and the callback of \<^verbatim>\<open>reduce\<close>
  reads it through its reference. The definitions of this section spell that out, with
  a store of arrays threaded through the calls, so that what one call does to its array
  can be compared with what a later call sees. The functions only read \<^verbatim>\<open>digits\<close>,
  which is therefore passed as its contents.
\<close>

type_synonym addr = nat

record heap =
  arrays :: "addr \<Rightarrow> jsnum list option"
  next_addr :: addr

definition new_array :: "jsnum list \<Rightarrow> heap \<Rightarrow> addr \<times> heap" where
  "new_array xs h =
     (next_addr h, h\<lparr>arrays := (arrays h)(next_addr h \<mapsto> xs), next_addr := Suc (next_addr h)\<rparr>)"

definition array_unshift :: "addr \<Rightarrow> jsnum \<Rightarrow> heap \<Rightarrow> heap" where
  "array_unshift a x h =
     (case arrays h a of None \<Rightarrow> h | Some xs \<Rightarrow> h\<lparr>arrays := (arrays h)(a \<mapsto> x # xs)\<rparr>)"

definition array_read :: "heap \<Rightarrow> addr \<Rightarrow> nat \<Rightarrow> jsnum option" where
  "array_read h a i = (case arrays h a of None \<Rightarrow> None | Some xs \<Rightarrow> js_index xs i)"

definition weighted_sum_heap :: "heap \<Rightarrow> addr \<Rightarrow> jsnum list \<Rightarrow> jsnum" where
  "weighted_sum_heap h weights digits =
     js_reduce (\<lambda>acc digit i. js_add acc (js_mul digit (to_number (array_read h weights i))))
       (Num 0) digits"

definition calculateCpfVerifier_heap :: "jsnum list \<Rightarrow> heap \<Rightarrow> jsnum \<times> heap" where
  "calculateCpfVerifier_heap digits h =
     (let (weights, h1) =
            new_array (array_from (length digits) (\<lambda>i. Num (int (length digits) + 1 - int i))) h;
          sum = weighted_sum_heap h1 weights digits;
          remainder = js_rem (js_mul sum (Num 10)) (Num 11)
      in (if js_strict_eq remainder (Num 10) then Num 0 else remainder, h1))"

definition calculateCnpjVerifier_heap :: "jsnum list \<Rightarrow> heap \<Rightarrow> jsnum \<times> heap" where
  "calculateCnpjVerifier_heap digits h =
     (let (weights, h1) = new_array cnpj_base_weights h;
          h2 = (if length digits = 13 then array_unshift weights (Num 6) h1 else h1);
          sum = weighted_sum_heap h2 weights digits;
          remainder = js_rem sum (Num 11)
      in (if js_lt remainder (Num 2) then Num 0 else js_sub (Num 11) remainder, h2))"

fun computeVerifier_heap :: "document_kind \<Rightarrow> jsnum list \<Rightarrow> heap \<Rightarrow> jsnum \<times> heap" where
  "computeVerifier_heap CPF digits h = calculateCpfVerifier_heap digits h"
| "computeVerifier_heap CNPJ digits h = calculateCnpjVerifier_heap digits h"

text \<open>The store after a sequence of calls, each given as its kind and its digits.\<close>

fun run_calls :: "(document_kind \<times> jsnum list) list \<Rightarrow> heap \<Rightarrow> heap" where
  "run_calls [] h = h"
| "run_calls ((k, digits) # cs) h = run_calls cs (snd (computeVerifier_heap k digits h))"


text \<open>
  The digits a generator joins according to the specification: the base digits, the
  verifier of the base digits, and the verifier of the base digits followed by the first
  verifier.
\<close>

definition cpf_digits :: "int list \<Rightarrow> int list" where
  "cpf_digits ds = ds @ [cpf_rule ds, cpf_rule (ds @ [cpf_rule ds])]"

definition cnpj_digits :: "int list \<Rightarrow> int list" where
  "cnpj_digits ds = ds @ [cnpj_rule ds, cnpj_rule (ds @ [cnpj_rule ds])]"

text \<open>The component state before any click: the initial values of the four \<^verbatim>\<open>useState\<close>.\<close>

definition initial_state :: app_state where
  "initial_state = \<lparr>cpf = [], cnpj = [], copiedCpf = False, copiedCnpj = False\<rparr>"

text \<open>
  The array a call builds, by its kind and digits, and a store in which nothing has been
  allocated.
\<close>

definition call_weights :: "document_kind \<times> jsnum list \<Rightarrow> jsnum list" where
  "call_weights c =
     (case c of (CPF, digits) \<Rightarrow> cpf_weights digits | (CNPJ, digits) \<Rightarrow> cnpj_weights digits)"

definition empty_heap :: heap where
  "empty_heap = \<lparr>arrays = (\<lambda>a. None), next_addr = 0\<rparr>"


section \<open>The verifier functions compute the rules\<close>

lemma js_reduce_from_Num:
  "i + length ds \<le> length ws \<Longrightarrow>
   js_reduce_from i (\<lambda>acc digit i. js_add acc (js_mul digit (to_number (js_index (map Num ws) i))))
     (Num a) (map Num ds) = Num (a + (\<Sum>j<length ds. ds ! j * ws ! (i + j)))"
proof (induction ds arbitrary: i a)
  case Nil
  then show ?case by simp
next
  case (Cons x xs)
  from Cons.prems have "i < length ws" "Suc i + length xs \<le> length ws" by simp_all
  then show ?case
    using Cons.IH [of "Suc i" "a + x * ws ! i"]
    by (simp add: js_index_def sum.lessThan_Suc_shift del: sum.lessThan_Suc)
qed

lemma weighted_sum_Num:
  "length ds \<le> length ws \<Longrightarrow>
   weighted_sum (map Num ws) (map Num ds) = Num (position_sum (\<lambda>i. ws ! i) ds)"
  using js_reduce_from_Num [of 0 ds ws 0]
  by (simp add: weighted_sum_def js_reduce_def position_sum_def interv_sum_list_conv_sum_set_nat atLeast0LessThan)

lemma position_sum_cong:
  "(\<And>i. i < length ds \<Longrightarrow> w i = w' i) \<Longrightarrow> position_sum w ds = position_sum w' ds"
  unfolding position_sum_def by (rule arg_cong [where f = sum_list]) simp

lemma position_sum_nonneg:
  "digit_sequence ds \<Longrightarrow> (\<And>i. i < length ds \<Longrightarrow> 0 \<le> w i) \<Longrightarrow> 0 \<le> position_sum w ds"
  unfolding position_sum_def digit_sequence_def
  by (rule sum_list_nonneg) (auto simp: list_all_length)

lemma trunc_rem_nonneg: "0 \<le> a \<Longrightarrow> 0 < b \<Longrightarrow> trunc_rem a b = a mod b"
  by (cases "a = 0") (simp_all add: trunc_rem_def)


lemma cpf_weights_Num:
  "cpf_weights (map Num ds) = map Num (map (\<lambda>i. int (length ds) + 1 - int i) [0..<length ds])"
  by (simp add: cpf_weights_def array_from_def)

lemma cpf_sum_Num:
  "weighted_sum (cpf_weights (map Num ds)) (map Num ds) =
   Num (position_sum (\<lambda>i. int (length ds) + 1 - int i) ds)"
proof -
  let ?ws = "map (\<lambda>i. int (length ds) + 1 - int i) [0..<length ds]"
  have "weighted_sum (map Num ?ws) (map Num ds) = Num (position_sum (\<lambda>i. ?ws ! i) ds)"
    by (rule weighted_sum_Num) simp
  moreover have "position_sum (\<lambda>i. ?ws ! i) ds = position_sum (\<lambda>i. int (length ds) + 1 - int i) ds"
    by (rule position_sum_cong) simp
  ultimately show ?thesis by (simp only: cpf_weights_Num)
qed

lemma cpf_verifier_rule:
  assumes "digit_sequence ds"
  shows "calculateCpfVerifier (map Num ds) = Num (cpf_rule ds)"
proof -
  have "0 \<le> position_sum (\<lambda>i. int (length ds) + 1 - int i) ds"
    using assms by (rule position_sum_nonneg) simp
  then have "trunc_rem (position_sum (\<lambda>i. int (length ds) + 1 - int i) ds * 10) 11 =
             (position_sum (\<lambda>i. int (length ds) + 1 - int i) ds * 10) mod 11"
    by (intro trunc_rem_nonneg) simp_all
  then show ?thesis
    by (simp add: calculateCpfVerifier_def cpf_sum_Num cpf_rule_def weighted_rule_def Let_def)
qed

lemma weighted_rule_range: "0 \<le> weighted_rule w ds \<and> weighted_rule w ds \<le> 9"
proof -
  define r where "r = (position_sum w ds * 10) mod 11"
  have "0 \<le> r" "r < 11" unfolding r_def by simp_all
  then show ?thesis unfolding weighted_rule_def Let_def r_def [symmetric] by auto
qed

lemma cnpj_rule_range: "0 \<le> cnpj_rule ds \<and> cnpj_rule ds \<le> 9"
proof -
  define r where "r = position_sum (cnpj_weight_at (length ds)) ds mod 11"
  have "0 \<le> r" "r < 11" unfolding r_def by simp_all
  then show ?thesis unfolding cnpj_rule_def Let_def r_def [symmetric] by auto
qed

lemma cnpj_weights_Num:
  "cnpj_weights (map Num ds) = map Num (if length ds = 13 then 6 # cnpj_table else cnpj_table)"
  by (simp add: cnpj_weights_def cnpj_base_weights_def cnpj_table_def)

lemma cnpj_table_nth_nonneg: "i < 12 \<Longrightarrow> 0 \<le> cnpj_table ! i"
proof -
  have "list_all (\<lambda>w. 0 \<le> w) cnpj_table" by (simp add: cnpj_table_def)
  moreover assume "i < 12"
  ultimately show ?thesis by (simp add: list_all_length cnpj_table_def)
qed

lemma cnpj_weight_at_nonneg:
  "length ds = 12 \<or> length ds = 13 \<Longrightarrow> i < length ds \<Longrightarrow> 0 \<le> cnpj_weight_at (length ds) i"
  by (auto simp: cnpj_weight_at_def intro: cnpj_table_nth_nonneg)

lemma cnpj_sum_Num:
  assumes "length ds = 12 \<or> length ds = 13"
  shows "weighted_sum (cnpj_weights (map Num ds)) (map Num ds) =
         Num (position_sum (cnpj_weight_at (length ds)) ds)"
proof -
  let ?ws = "if length ds = 13 then 6 # cnpj_table else cnpj_table"
  have len: "length ds \<le> length ?ws"
    using assms by (auto simp: cnpj_table_def)
  have "weighted_sum (map Num ?ws) (map Num ds) = Num (position_sum (\<lambda>i. ?ws ! i) ds)"
    using len by (rule weighted_sum_Num)
  moreover have "position_sum (\<lambda>i. ?ws ! i) ds = position_sum (cnpj_weight_at (length ds)) ds"
  proof (rule position_sum_cong)
    fix i assume "i < length ds"
    then show "?ws ! i = cnpj_weight_at (length ds) i"
      using assms by (auto simp: cnpj_weight_at_def nth_Cons')
  qed
  ultimately show ?thesis by (simp only: cnpj_weights_Num)
qed

lemma cnpj_verifier_rule:
  assumes "digit_sequence ds" and "length ds = 12 \<or> length ds = 13"
  shows "calculateCnpjVerifier (map Num ds) = Num (cnpj_rule ds)"
proof -
  have "0 \<le> position_sum (cnpj_weight_at (length ds)) ds"
    using assms(1) by (rule position_sum_nonneg) (rule cnpj_weight_at_nonneg [OF assms(2)])
  then have "trunc_rem (position_sum (cnpj_weight_at (length ds)) ds) 11 =
             position_sum (cnpj_weight_at (length ds)) ds mod 11"
    by (intro trunc_rem_nonneg) simp_all
  then show ?thesis
    by (simp add: calculateCnpjVerifier_def cnpj_sum_Num [OF assms(2)] cnpj_rule_def Let_def)
qed

lemma digit_num_Num: "digit_num (Num n) = (0 \<le> n \<and> n \<le> 9)"
  by (simp add: digit_num_def)

text \<open>
  Claim C1. For every digit sequence \<open>d\<close> of length 9 or 10, \<^verbatim>\<open>calculateCpfVerifier\<close>
  returns the number the CPF rule gives: with \<open>L\<close> the length, the sum of
  \<open>d[i] * (L + 1 - i)\<close> over the positions, times 10, modulo 11, and 0 in place of a
  remainder of 10.
\<close>

theorem cpf_verifier_follows_rule:
  assumes "digit_sequence d" and "length d = 9 \<or> length d = 10"
  shows "calculateCpfVerifier (map Num d) = Num (cpf_rule d)"
  using assms(1) by (rule cpf_verifier_rule)

theorem cpf_verifier_follows_rule_witness:
  "calculateCpfVerifier (map Num [5, 2, 9, 9, 8, 2, 2, 4, 7]) = Num 2
   \<and> calculateCpfVerifier (map Num [5, 2, 9, 9, 8, 2, 2, 4, 7, 2]) = Num 5"
proof -
  have d9: "digit_sequence [5, 2, 9, 9, 8, 2, 2, 4, 7]"
    and d10: "digit_sequence [5, 2, 9, 9, 8, 2, 2, 4, 7, 2]"
    by (simp_all add: digit_sequence_def)
  have l9: "length [5, 2, 9, 9, 8, 2, 2, 4, 7 :: int] = 9 \<or> length [5, 2, 9, 9, 8, 2, 2, 4, 7 :: int] = 10"
    and l10: "length [5, 2, 9, 9, 8, 2, 2, 4, 7, 2 :: int] = 9 \<or> length [5, 2, 9, 9, 8, 2, 2, 4, 7, 2 :: int] = 10"
    by simp_all
  have v9: "cpf_rule [5, 2, 9, 9, 8, 2, 2, 4, 7] = 2"
    and v10: "cpf_rule [5, 2, 9, 9, 8, 2, 2, 4, 7, 2] = 5"
    by code_simp+
  show ?thesis
    using cpf_verifier_follows_rule [OF d9 l9] cpf_verifier_follows_rule [OF d10 l10]
    by (simp only: v9 v10)
qed

text \<open>
  Claim C2. For every digit sequence \<open>d\<close> of length 12 or 13, \<^verbatim>\<open>calculateCnpjVerifier\<close>
  returns the number the CNPJ rule gives: the table \<open>[5,4,3,2,9,8,7,6,5,4,3,2]\<close> over
  the last twelve positions, weight 6 on the position before them when there are 13, the
  sum modulo 11, and 0 for a remainder below 2, \<open>11 - remainder\<close> otherwise.
\<close>

theorem cnpj_verifier_follows_rule:
  assumes "digit_sequence d" and "length d = 12 \<or> length d = 13"
  shows "calculateCnpjVerifier (map Num d) = Num (cnpj_rule d)"
  using assms by (rule cnpj_verifier_rule)

theorem cnpj_verifier_follows_rule_witness:
  "calculateCnpjVerifier (map Num [1, 1, 2, 2, 2, 3, 3, 3, 0, 0, 0, 1]) = Num 8
   \<and> calculateCnpjVerifier (map Num [1, 1, 2, 2, 2, 3, 3, 3, 0, 0, 0, 1, 8]) = Num 1"
proof -
  have d12: "digit_sequence [1, 1, 2, 2, 2, 3, 3, 3, 0, 0, 0, 1]"
    and d13: "digit_sequence [1, 1, 2, 2, 2, 3, 3, 3, 0, 0, 0, 1, 8]"
    by (simp_all add: digit_sequence_def)
  have l12: "length [1, 1, 2, 2, 2, 3, 3, 3, 0, 0, 0, 1 :: int] = 12
             \<or> length [1, 1, 2, 2, 2, 3, 3, 3, 0, 0, 0, 1 :: int] = 13"
    and l13: "length [1, 1, 2, 2, 2, 3, 3, 3, 0, 0, 0, 1, 8 :: int] = 12
             \<or> length [1, 1, 2, 2, 2, 3, 3, 3, 0, 0, 0, 1, 8 :: int] = 13"
    by simp_all
  have v12: "cnpj_rule [1, 1, 2, 2, 2, 3, 3, 3, 0, 0, 0, 1] = 8"
    and v13: "cnpj_rule [1, 1, 2, 2, 2, 3, 3, 3, 0, 0, 0, 1, 8] = 1"
    by code_simp+
  show ?thesis
    using cnpj_verifier_follows_rule [OF d12 l12] cnpj_verifier_follows_rule [OF d13 l13]
    by (simp only: v12 v13)
qed

text \<open>
  Claim C5. For every digit sequence whose length is one the stage expects (9 or 10 for
  CPF, 12 or 13 for CNPJ), the verifier computation returns an integer between 0 and 9.
\<close>

theorem verifier_is_digit:
  assumes "digit_sequence d" and "stage_length k (length d)"
  shows "digit_num (computeVerifier k (map Num d))"
proof (cases k)
  case CPF
  then show ?thesis
    using assms(1) weighted_rule_range [of "\<lambda>i. int (length d) + 1 - int i" d]
    by (simp add: cpf_verifier_rule digit_num_Num cpf_rule_def)
next
  case CNPJ
  then show ?thesis
    using assms cnpj_rule_range [of d]
    by (simp add: cnpj_verifier_rule digit_num_Num)
qed

theorem verifier_is_digit_witness:
  "digit_num (computeVerifier CPF (map Num [9, 9, 9, 9, 9, 9, 9, 9, 9]))
   \<and> digit_num (computeVerifier CNPJ (map Num [9, 9, 9, 9, 9, 9, 9, 9, 9, 9, 9, 9, 9]))"
proof -
  have c: "digit_sequence [9, 9, 9, 9, 9, 9, 9, 9, 9]"
    and n: "digit_sequence [9, 9, 9, 9, 9, 9, 9, 9, 9, 9, 9, 9, 9]"
    by (simp_all add: digit_sequence_def)
  have lc: "stage_length CPF (length [9, 9, 9, 9, 9, 9, 9, 9, 9 :: int])"
    and ln: "stage_length CNPJ (length [9, 9, 9, 9, 9, 9, 9, 9, 9, 9, 9, 9, 9 :: int])"
    by simp_all
  show ?thesis
    using verifier_is_digit [OF c lc] verifier_is_digit [OF n ln] by (rule conjI)
qed

text \<open>
  Claim C8. For the CPF base digits \<open>[1,1,1,4,4,4,4,7,7]\<close> the value of
  \<^verbatim>\<open>calculateCpfVerifier\<close> equals the value obtained with the weight vector
  \<open>[9,8,7,6,5,4,3,2,1]\<close>, that is by weighting position \<open>i\<close> with \<open>9 - i\<close>, taking
  \<open>(sum * 10) mod 11\<close> and mapping 10 to 0. Both are 4.
\<close>

theorem cpf_scenario_first_verifier:
  "calculateCpfVerifier (map Num [1, 1, 1, 4, 4, 4, 4, 7, 7])
     = Num (weighted_rule (\<lambda>i. 9 - int i) [1, 1, 1, 4, 4, 4, 4, 7, 7])
   \<and> calculateCpfVerifier (map Num [1, 1, 1, 4, 4, 4, 4, 7, 7])
     = Num (vector_rule [9, 8, 7, 6, 5, 4, 3, 2, 1] [1, 1, 1, 4, 4, 4, 4, 7, 7])
   \<and> calculateCpfVerifier (map Num [1, 1, 1, 4, 4, 4, 4, 7, 7]) = Num 4"
  by code_simp

text \<open>
  The array \<^verbatim>\<open>weights\<close> that the function itself builds for this input is
  \<open>[10,9,8,7,6,5,4,3,2]\<close>, and its sum is 150 where the weights \<open>[9,8,7,6,5,4,3,2,1]\<close>
  give 117. The two sums differ by the sum of the digits, 33, a multiple of 11, which is
  why the two values agree at this input; with base digits \<open>[1,0,0,0,0,0,0,0,0]\<close> the
  function returns 1 and the weights \<open>[9,8,7,6,5,4,3,2,1]\<close> give 2.
\<close>

lemma cpf_scenario_weights:
  "cpf_weights (map Num [1, 1, 1, 4, 4, 4, 4, 7, 7]) = map Num [10, 9, 8, 7, 6, 5, 4, 3, 2]
   \<and> weighted_sum (cpf_weights (map Num [1, 1, 1, 4, 4, 4, 4, 7, 7]))
         (map Num [1, 1, 1, 4, 4, 4, 4, 7, 7]) = Num 150
   \<and> vector_sum [9, 8, 7, 6, 5, 4, 3, 2, 1] [1, 1, 1, 4, 4, 4, 4, 7, 7] = 117"
  by code_simp

lemma cpf_weights_from_nine_differ:
  "calculateCpfVerifier (map Num [1, 0, 0, 0, 0, 0, 0, 0, 0]) = Num 1
   \<and> vector_rule [9, 8, 7, 6, 5, 4, 3, 2, 1] [1, 0, 0, 0, 0, 0, 0, 0, 0] = 2"
  by code_simp


section \<open>The generated documents\<close>

lemma digit_cases:
  assumes "0 \<le> n" "n \<le> (9::int)"
  shows "nat n \<in> {0, 1, 2, 3, 4, 5, 6, 7, 8, 9}"
  using assms by (cases "nat n") (auto simp: eval_nat_numeral)

lemma digit_char_is_digit: "0 \<le> n \<Longrightarrow> n \<le> 9 \<Longrightarrow> is_digit (digit_char (nat n))"
  using digit_cases [of n] by (auto simp: digit_char_def is_digit_def)

lemma digit_val_digit_char: "0 \<le> n \<Longrightarrow> n \<le> 9 \<Longrightarrow> digit_val (digit_char (nat n)) = n"
  using digit_cases [of n] by (auto simp: digit_char_def digit_val_def)

lemma js_toString_digit:
  assumes "0 \<le> n" "n \<le> 9"
  shows "js_toString (Num n) = [digit_char (nat n)]"
proof -
  from assms have "nat n < 10" by simp
  then have "nat_to_string (nat n) = [digit_char (nat n)]"
    by (subst nat_to_string.simps) simp
  with assms show ?thesis by simp
qed

lemma js_join_digits:
  "digit_sequence ds \<Longrightarrow> js_join_empty (map Num ds) = map (\<lambda>n. digit_char (nat n)) ds"
  by (induction ds) (simp_all add: js_join_empty_def digit_sequence_def js_toString_digit del: js_toString.simps)

lemma digits_all_is_digit:
  "digit_sequence ds \<Longrightarrow> list_all is_digit (map (\<lambda>n. digit_char (nat n)) ds)"
  by (induction ds) (simp_all add: digit_sequence_def digit_char_is_digit)

lemma digits_read_back:
  "digit_sequence ds \<Longrightarrow> map digit_val (map (\<lambda>n. digit_char (nat n)) ds) = ds"
  by (induction ds) (simp_all add: digit_sequence_def digit_val_digit_char)

lemma is_digit_not_punctuation: "is_digit c \<Longrightarrow> c \<notin> set ''./-''"
  by (auto simp: is_digit_def)

lemma strip_digits: "list_all is_digit s \<Longrightarrow> strip_punctuation s = s"
  by (induction s) (simp_all add: strip_punctuation_def is_digit_not_punctuation del: set_simps)

lemma length_11_list:
  "length s = 11 \<Longrightarrow> \<exists>a b c d e f g h i j k. s = [a, b, c, d, e, f, g, h, i, j, k]"
  by (simp add: eval_nat_numeral length_Suc_conv) blast

lemma length_14_list:
  "length s = 14 \<Longrightarrow> \<exists>a b c d e f g h i j k l m n. s = [a, b, c, d, e, f, g, h, i, j, k, l, m, n]"
  by (simp add: eval_nat_numeral length_Suc_conv) blast


lemma format_cpf_digits:
  assumes "length s = 11" and "list_all is_digit s"
  shows "format_cpf s = cpf_template s"
proof -
  from assms(1) obtain c cs where s: "s = c # cs" by (cases s) auto
  have "replace_first_digits 11 cpf_template (c # cs) = cpf_template (c # cs)"
    using assms unfolding s by (subst replace_first_digits.simps) simp
  then show ?thesis by (simp add: format_cpf_def s)
qed

lemma format_cnpj_digits:
  assumes "length s = 14" and "list_all is_digit s"
  shows "format_cnpj s = cnpj_template s"
proof -
  from assms(1) obtain c cs where s: "s = c # cs" by (cases s) auto
  have "replace_first_digits 14 cnpj_template (c # cs) = cnpj_template (c # cs)"
    using assms unfolding s by (subst replace_first_digits.simps) simp
  then show ?thesis by (simp add: format_cnpj_def s)
qed

lemma strip_append: "strip_punctuation (xs @ ys) = strip_punctuation xs @ strip_punctuation ys"
  by (simp add: strip_punctuation_def)

lemma digits_take: "list_all is_digit s \<Longrightarrow> list_all is_digit (take n s)"
  by (auto simp: list_all_iff dest: in_set_takeD)

lemma digits_drop: "list_all is_digit s \<Longrightarrow> list_all is_digit (drop n s)"
  by (auto simp: list_all_iff dest: in_set_dropD)

lemma strip_marks:
  "strip_punctuation ''.'' = []" "strip_punctuation ''-'' = []" "strip_punctuation ''/'' = []"
  by (simp_all add: strip_punctuation_def)

lemma strip_cpf_template:
  assumes "length s = 11" and "list_all is_digit s"
  shows "strip_punctuation (cpf_template s) = s"
proof -
  have "strip_punctuation (cpf_template s)
        = take 3 s @ take 3 (drop 3 s) @ take 3 (drop 6 s) @ take 2 (drop 9 s)"
    unfolding cpf_template_def
    by (simp only: strip_append strip_marks strip_digits digits_take digits_drop assms(2)
          append_Nil)
  also have "\<dots> = s"
  proof -
    from length_11_list [OF assms(1)] obtain a b c d e f g h i j k
      where s: "s = [a, b, c, d, e, f, g, h, i, j, k]" by blast
    show ?thesis by (simp add: s)
  qed
  finally show ?thesis .
qed

lemma strip_cnpj_template:
  assumes "length s = 14" and "list_all is_digit s"
  shows "strip_punctuation (cnpj_template s) = s"
proof -
  have "strip_punctuation (cnpj_template s)
        = take 2 s @ take 3 (drop 2 s) @ take 3 (drop 5 s) @ take 4 (drop 8 s) @ take 2 (drop 12 s)"
    unfolding cnpj_template_def
    by (simp only: strip_append strip_marks strip_digits digits_take digits_drop assms(2)
          append_Nil)
  also have "\<dots> = s"
  proof -
    from length_14_list [OF assms(1)] obtain a b c d e f g h i j k l m n
      where s: "s = [a, b, c, d, e, f, g, h, i, j, k, l, m, n]" by blast
    show ?thesis by (simp add: s)
  qed
  finally show ?thesis .
qed







lemma digit_sequence_snoc:
  "digit_sequence ds \<Longrightarrow> 0 \<le> v \<and> v \<le> 9 \<Longrightarrow> digit_sequence (ds @ [v])"
  by (simp add: digit_sequence_def)

lemma cpf_rule_range: "0 \<le> cpf_rule ds \<and> cpf_rule ds \<le> 9"
  unfolding cpf_rule_def by (rule weighted_rule_range)

lemma cpf_digits_sequence: "digit_sequence ds \<Longrightarrow> digit_sequence (cpf_digits ds)"
  using cpf_rule_range [of ds] cpf_rule_range [of "ds @ [cpf_rule ds]"]
  by (simp add: cpf_digits_def digit_sequence_def)

lemma cnpj_digits_sequence: "digit_sequence ds \<Longrightarrow> digit_sequence (cnpj_digits ds)"
  using cnpj_rule_range [of ds] cnpj_rule_range [of "ds @ [cnpj_rule ds]"]
  by (simp add: cnpj_digits_def digit_sequence_def)

lemma cpf_digits_length: "length (cpf_digits ds) = length ds + 2"
  by (simp add: cpf_digits_def)

lemma cnpj_digits_length: "length (cnpj_digits ds) = length ds + 2"
  by (simp add: cnpj_digits_def)

lemma cpf_full_digits:
  assumes "digit_sequence ds"
  shows "map Num ds @ [calculateCpfVerifier (map Num ds),
           calculateCpfVerifier (map Num ds @ [calculateCpfVerifier (map Num ds)])]
         = map Num (cpf_digits ds)"
proof -
  have v1: "calculateCpfVerifier (map Num ds) = Num (cpf_rule ds)"
    using assms by (rule cpf_verifier_rule)
  have "digit_sequence (ds @ [cpf_rule ds])"
    using assms cpf_rule_range by (rule digit_sequence_snoc)
  then have "calculateCpfVerifier (map Num (ds @ [cpf_rule ds])) = Num (cpf_rule (ds @ [cpf_rule ds]))"
    by (rule cpf_verifier_rule)
  then show ?thesis by (simp add: v1 cpf_digits_def)
qed

lemma cnpj_full_digits:
  assumes "digit_sequence ds" and "length ds = 12"
  shows "map Num ds @ [calculateCnpjVerifier (map Num ds),
           calculateCnpjVerifier (map Num ds @ [calculateCnpjVerifier (map Num ds)])]
         = map Num (cnpj_digits ds)"
proof -
  have v1: "calculateCnpjVerifier (map Num ds) = Num (cnpj_rule ds)"
    using assms by (intro cnpj_verifier_rule) simp_all
  have "digit_sequence (ds @ [cnpj_rule ds])"
    using assms(1) cnpj_rule_range by (rule digit_sequence_snoc)
  then have "calculateCnpjVerifier (map Num (ds @ [cnpj_rule ds])) = Num (cnpj_rule (ds @ [cnpj_rule ds]))"
    using assms(2) by (intro cnpj_verifier_rule) simp_all
  then show ?thesis by (simp add: v1 cnpj_digits_def)
qed

lemma handleGenerateCpf_output:
  assumes "digit_sequence ds" and "length ds = 9"
  shows "cpf (handleGenerateCpf (map Num ds) st)
         = cpf_template (map (\<lambda>n. digit_char (nat n)) (cpf_digits ds))"
proof -
  have "cpf (handleGenerateCpf (map Num ds) st) = format_cpf (js_join_empty (map Num (cpf_digits ds)))"
    by (simp add: handleGenerateCpf_def Let_def cpf_full_digits [OF assms(1)])
  also have "\<dots> = format_cpf (map (\<lambda>n. digit_char (nat n)) (cpf_digits ds))"
    by (simp add: js_join_digits cpf_digits_sequence assms(1))
  also have "\<dots> = cpf_template (map (\<lambda>n. digit_char (nat n)) (cpf_digits ds))"
    using assms(2) digits_all_is_digit [OF cpf_digits_sequence [OF assms(1)]]
    by (intro format_cpf_digits) (simp_all add: cpf_digits_length)
  finally show ?thesis .
qed

lemma handleGenerateCnpj_output:
  assumes "digit_sequence ds" and "length ds = 12"
  shows "cnpj (handleGenerateCnpj (map Num ds) st)
         = cnpj_template (map (\<lambda>n. digit_char (nat n)) (cnpj_digits ds))"
proof -
  have "cnpj (handleGenerateCnpj (map Num ds) st) = format_cnpj (js_join_empty (map Num (cnpj_digits ds)))"
    by (simp add: handleGenerateCnpj_def Let_def cnpj_full_digits [OF assms])
  also have "\<dots> = format_cnpj (map (\<lambda>n. digit_char (nat n)) (cnpj_digits ds))"
    by (simp add: js_join_digits cnpj_digits_sequence assms(1))
  also have "\<dots> = cnpj_template (map (\<lambda>n. digit_char (nat n)) (cnpj_digits ds))"
    using assms(2) digits_all_is_digit [OF cnpj_digits_sequence [OF assms(1)]]
    by (intro format_cnpj_digits) (simp_all add: cnpj_digits_length)
  finally show ?thesis .
qed


lemma cpf_field:
  "cpf (handleGenerateCpf b st)
   = format_cpf (js_join_empty (b @ [calculateCpfVerifier b,
       calculateCpfVerifier (b @ [calculateCpfVerifier b])]))"
  by (simp add: handleGenerateCpf_def Let_def)

lemma cnpj_field:
  "cnpj (handleGenerateCnpj b st)
   = format_cnpj (js_join_empty (b @ [calculateCnpjVerifier b,
       calculateCnpjVerifier (b @ [calculateCnpjVerifier b])]))"
  by (simp add: handleGenerateCnpj_def Let_def)

lemma cpf_stripped:
  assumes "digit_sequence ds" and "length ds = 9"
  shows "strip_punctuation (cpf (handleGenerateCpf (map Num ds) st))
         = map (\<lambda>n. digit_char (nat n)) (cpf_digits ds)"
  using assms digits_all_is_digit [OF cpf_digits_sequence [OF assms(1)]]
  by (simp add: handleGenerateCpf_output strip_cpf_template cpf_digits_length)

lemma cnpj_stripped:
  assumes "digit_sequence ds" and "length ds = 12"
  shows "strip_punctuation (cnpj (handleGenerateCnpj (map Num ds) st))
         = map (\<lambda>n. digit_char (nat n)) (cnpj_digits ds)"
  using assms digits_all_is_digit [OF cnpj_digits_sequence [OF assms(1)]]
  by (simp add: handleGenerateCnpj_output strip_cnpj_template cnpj_digits_length)

lemma digit_val_nth:
  assumes "digit_sequence fs" and "i < length fs"
  shows "digit_val (map (\<lambda>n. digit_char (nat n)) fs ! i) = fs ! i"
proof -
  have "map digit_val (map (\<lambda>n. digit_char (nat n)) fs) ! i = fs ! i"
    using assms(1) by (simp only: digits_read_back)
  then show ?thesis using assms(2) by simp
qed

lemma digit_val_take:
  assumes "digit_sequence fs"
  shows "map digit_val (take n (map (\<lambda>n. digit_char (nat n)) fs)) = take n fs"
proof -
  have "take n (map digit_val (map (\<lambda>n. digit_char (nat n)) fs)) = take n fs"
    using assms by (simp only: digits_read_back)
  then show ?thesis by (simp only: take_map)
qed

text \<open>
  Claim C3. For any nine base digits between 0 and 9, the CPF that \<^verbatim>\<open>handleGenerateCpf\<close>
  stores, with its punctuation removed, is exactly eleven digits; its first nine digits
  are the base digits, and the CPF rule applied to them gives the tenth digit, and
  applied to them followed by that verifier gives the eleventh.
\<close>

theorem cpf_output_reproduces_verifiers:
  assumes "digit_sequence ds" and "length ds = 9"
  shows "let s = strip_punctuation (cpf (handleGenerateCpf (map Num ds) st));
             base = map digit_val (take 9 s)
         in length s = 11 \<and> list_all is_digit s \<and> base = ds
            \<and> digit_val (s ! 9) = cpf_rule base
            \<and> digit_val (s ! 10) = cpf_rule (base @ [cpf_rule base])"
proof -
  let ?s = "map (\<lambda>n. digit_char (nat n)) (cpf_digits ds)"
  have fs: "digit_sequence (cpf_digits ds)"
    using assms(1) by (rule cpf_digits_sequence)
  have len: "length ?s = 11"
    by (simp add: cpf_digits_length assms(2))
  have dig: "list_all is_digit ?s"
    using fs by (rule digits_all_is_digit)
  have base: "map digit_val (take 9 ?s) = ds"
    by (simp add: digit_val_take [OF fs]) (simp add: cpf_digits_def assms(2))
  have "digit_val (?s ! 9) = cpf_digits ds ! 9"
    by (rule digit_val_nth [OF fs]) (simp add: cpf_digits_length assms(2))
  then have v1: "digit_val (?s ! 9) = cpf_rule ds"
    by (simp add: cpf_digits_def nth_append assms(2))
  have "digit_val (?s ! 10) = cpf_digits ds ! 10"
    by (rule digit_val_nth [OF fs]) (simp add: cpf_digits_length assms(2))
  then have v2: "digit_val (?s ! 10) = cpf_rule (ds @ [cpf_rule ds])"
    by (simp add: cpf_digits_def nth_append assms(2))
  show ?thesis
    unfolding Let_def cpf_stripped [OF assms] base
    using len dig v1 v2 by simp
qed

theorem cpf_output_reproduces_verifiers_witness:
  "cpf (handleGenerateCpf (map Num [5, 2, 9, 9, 8, 2, 2, 4, 7]) initial_state) = ''529.982.247-25''
   \<and> (let s = strip_punctuation (cpf (handleGenerateCpf (map Num [5, 2, 9, 9, 8, 2, 2, 4, 7]) initial_state));
            base = map digit_val (take 9 s)
        in length s = 11 \<and> list_all is_digit s \<and> base = [5, 2, 9, 9, 8, 2, 2, 4, 7]
           \<and> digit_val (s ! 9) = cpf_rule base
           \<and> digit_val (s ! 10) = cpf_rule (base @ [cpf_rule base]))"
proof -
  have d: "digit_sequence [5, 2, 9, 9, 8, 2, 2, 4, 7]"
    by (simp add: digit_sequence_def)
  have l: "length ([5, 2, 9, 9, 8, 2, 2, 4, 7] :: int list) = 9"
    by simp
  have "format_cpf (js_join_empty (map Num [5, 2, 9, 9, 8, 2, 2, 4, 7]
          @ [calculateCpfVerifier (map Num [5, 2, 9, 9, 8, 2, 2, 4, 7]),
             calculateCpfVerifier (map Num [5, 2, 9, 9, 8, 2, 2, 4, 7]
               @ [calculateCpfVerifier (map Num [5, 2, 9, 9, 8, 2, 2, 4, 7])])]))
        = ''529.982.247-25''"
    by code_simp
  then have out: "cpf (handleGenerateCpf (map Num [5, 2, 9, 9, 8, 2, 2, 4, 7]) initial_state) = ''529.982.247-25''"
    by (simp only: cpf_field)
  from out cpf_output_reproduces_verifiers [OF d l, of initial_state] show ?thesis
    by (rule conjI)
qed

text \<open>
  Claim C4. For any twelve base digits between 0 and 9, the CNPJ that
  \<^verbatim>\<open>handleGenerateCnpj\<close> stores, with its punctuation removed, is exactly fourteen
  digits; its first twelve digits are the base digits, and the CNPJ rule applied to them
  gives the thirteenth digit, and applied to them followed by that verifier gives the
  fourteenth.
\<close>

theorem cnpj_output_reproduces_verifiers:
  assumes "digit_sequence ds" and "length ds = 12"
  shows "let s = strip_punctuation (cnpj (handleGenerateCnpj (map Num ds) st));
             base = map digit_val (take 12 s)
         in length s = 14 \<and> list_all is_digit s \<and> base = ds
            \<and> digit_val (s ! 12) = cnpj_rule base
            \<and> digit_val (s ! 13) = cnpj_rule (base @ [cnpj_rule base])"
proof -
  let ?s = "map (\<lambda>n. digit_char (nat n)) (cnpj_digits ds)"
  have fs: "digit_sequence (cnpj_digits ds)"
    using assms(1) by (rule cnpj_digits_sequence)
  have len: "length ?s = 14"
    by (simp add: cnpj_digits_length assms(2))
  have dig: "list_all is_digit ?s"
    using fs by (rule digits_all_is_digit)
  have base: "map digit_val (take 12 ?s) = ds"
    by (simp add: digit_val_take [OF fs]) (simp add: cnpj_digits_def assms(2))
  have "digit_val (?s ! 12) = cnpj_digits ds ! 12"
    by (rule digit_val_nth [OF fs]) (simp add: cnpj_digits_length assms(2))
  then have v1: "digit_val (?s ! 12) = cnpj_rule ds"
    by (simp add: cnpj_digits_def nth_append assms(2))
  have "digit_val (?s ! 13) = cnpj_digits ds ! 13"
    by (rule digit_val_nth [OF fs]) (simp add: cnpj_digits_length assms(2))
  then have v2: "digit_val (?s ! 13) = cnpj_rule (ds @ [cnpj_rule ds])"
    by (simp add: cnpj_digits_def nth_append assms(2))
  show ?thesis
    unfolding Let_def cnpj_stripped [OF assms] base
    using len dig v1 v2 by simp
qed

theorem cnpj_output_reproduces_verifiers_witness:
  "cnpj (handleGenerateCnpj (map Num [1, 1, 2, 2, 2, 3, 3, 3, 0, 0, 0, 1]) initial_state) = ''11.222.333/0001-81''
   \<and> (let s = strip_punctuation (cnpj (handleGenerateCnpj (map Num [1, 1, 2, 2, 2, 3, 3, 3, 0, 0, 0, 1]) initial_state));
            base = map digit_val (take 12 s)
        in length s = 14 \<and> list_all is_digit s \<and> base = [1, 1, 2, 2, 2, 3, 3, 3, 0, 0, 0, 1]
           \<and> digit_val (s ! 12) = cnpj_rule base
           \<and> digit_val (s ! 13) = cnpj_rule (base @ [cnpj_rule base]))"
proof -
  have d: "digit_sequence [1, 1, 2, 2, 2, 3, 3, 3, 0, 0, 0, 1]"
    by (simp add: digit_sequence_def)
  have l: "length ([1, 1, 2, 2, 2, 3, 3, 3, 0, 0, 0, 1] :: int list) = 12"
    by simp
  have "format_cnpj (js_join_empty (map Num [1, 1, 2, 2, 2, 3, 3, 3, 0, 0, 0, 1]
          @ [calculateCnpjVerifier (map Num [1, 1, 2, 2, 2, 3, 3, 3, 0, 0, 0, 1]),
             calculateCnpjVerifier (map Num [1, 1, 2, 2, 2, 3, 3, 3, 0, 0, 0, 1]
               @ [calculateCnpjVerifier (map Num [1, 1, 2, 2, 2, 3, 3, 3, 0, 0, 0, 1])])]))
        = ''11.222.333/0001-81''"
    by code_simp
  then have out: "cnpj (handleGenerateCnpj (map Num [1, 1, 2, 2, 2, 3, 3, 3, 0, 0, 0, 1]) initial_state) = ''11.222.333/0001-81''"
    by (simp only: cnpj_field)
  from out cnpj_output_reproduces_verifiers [OF d l, of initial_state] show ?thesis
    by (rule conjI)
qed








text \<open>
  Claim C7. For nine zeros the stored CPF is \<^verbatim>\<open>000.000.000-00\<close> and for twelve zeros
  the stored CNPJ is \<^verbatim>\<open>00.000.000/0000-00\<close>: both verifiers are 0 in each, and the
  result is a formatted document like any other.
\<close>

theorem all_zero_base_digits:
  "cpf (handleGenerateCpf (map Num [0, 0, 0, 0, 0, 0, 0, 0, 0]) st) = ''000.000.000-00''
   \<and> cnpj (handleGenerateCnpj (map Num [0, 0, 0, 0, 0, 0, 0, 0, 0, 0, 0, 0]) st')
       = ''00.000.000/0000-00''
   \<and> calculateCpfVerifier (map Num [0, 0, 0, 0, 0, 0, 0, 0, 0]) = Num 0
   \<and> calculateCpfVerifier (map Num [0, 0, 0, 0, 0, 0, 0, 0, 0] @ [Num 0]) = Num 0
   \<and> calculateCnpjVerifier (map Num [0, 0, 0, 0, 0, 0, 0, 0, 0, 0, 0, 0]) = Num 0
   \<and> calculateCnpjVerifier (map Num [0, 0, 0, 0, 0, 0, 0, 0, 0, 0, 0, 0] @ [Num 0]) = Num 0"
proof -
  have "format_cpf (js_join_empty (map Num [0, 0, 0, 0, 0, 0, 0, 0, 0]
          @ [calculateCpfVerifier (map Num [0, 0, 0, 0, 0, 0, 0, 0, 0]),
             calculateCpfVerifier (map Num [0, 0, 0, 0, 0, 0, 0, 0, 0]
               @ [calculateCpfVerifier (map Num [0, 0, 0, 0, 0, 0, 0, 0, 0])])]))
        = ''000.000.000-00''"
    by code_simp
  moreover have "format_cnpj (js_join_empty (map Num [0, 0, 0, 0, 0, 0, 0, 0, 0, 0, 0, 0]
          @ [calculateCnpjVerifier (map Num [0, 0, 0, 0, 0, 0, 0, 0, 0, 0, 0, 0]),
             calculateCnpjVerifier (map Num [0, 0, 0, 0, 0, 0, 0, 0, 0, 0, 0, 0]
               @ [calculateCnpjVerifier (map Num [0, 0, 0, 0, 0, 0, 0, 0, 0, 0, 0, 0])])]))
        = ''00.000.000/0000-00''"
    by code_simp
  moreover have "calculateCpfVerifier (map Num [0, 0, 0, 0, 0, 0, 0, 0, 0]) = Num 0"
    by code_simp
  moreover have "calculateCpfVerifier (map Num [0, 0, 0, 0, 0, 0, 0, 0, 0] @ [Num 0]) = Num 0"
    by code_simp
  moreover have "calculateCnpjVerifier (map Num [0, 0, 0, 0, 0, 0, 0, 0, 0, 0, 0, 0]) = Num 0"
    by code_simp
  moreover have "calculateCnpjVerifier (map Num [0, 0, 0, 0, 0, 0, 0, 0, 0, 0, 0, 0] @ [Num 0]) = Num 0"
    by code_simp
  ultimately show ?thesis by (simp only: cpf_field cnpj_field)
qed


section \<open>Reads of the weight arrays\<close>

lemma reduce_from_NaN:
  "js_reduce_from i (\<lambda>acc digit i. js_add acc (js_mul digit (to_number (js_index ws i)))) NaN xs = NaN"
  by (induction xs arbitrary: i) simp_all

lemma js_mul_NaN: "js_mul x NaN = NaN"
  by (cases x) simp_all

lemma js_add_NaN: "js_add x NaN = NaN"
  by (cases x) simp_all

lemma reduce_from_out_of_bounds:
  "i \<le> length ws \<Longrightarrow> length ws < i + length xs \<Longrightarrow>
   js_reduce_from i (\<lambda>acc digit i. js_add acc (js_mul digit (to_number (js_index ws i)))) acc xs = NaN"
proof (induction xs arbitrary: i acc)
  case Nil
  then show ?case by simp
next
  case (Cons x xs)
  show ?case
  proof (cases "i < length ws")
    case True
    with Cons.prems have "Suc i \<le> length ws" "length ws < Suc i + length xs" by simp_all
    then show ?thesis by (simp add: Cons.IH)
  next
    case False
    then have "js_index ws i = None" by (simp add: js_index_def)
    then show ?thesis
      by (simp add: js_mul_NaN js_add_NaN reduce_from_NaN)
  qed
qed

lemma weighted_sum_out_of_bounds:
  "length ws < length d \<Longrightarrow> weighted_sum ws d = NaN"
  by (simp add: weighted_sum_def js_reduce_def reduce_from_out_of_bounds)

lemma cnpj_weights_length: "length (cnpj_weights d) = (if length d = 13 then 13 else 12)"
  by (simp add: cnpj_weights_def cnpj_base_weights_def)

lemma cpf_weights_length: "length (cpf_weights d) = length d"
  by (simp add: cpf_weights_def array_from_def)

lemma cnpj_long_input_NaN:
  assumes "13 < length d"
  shows "calculateCnpjVerifier d = NaN"
proof -
  have "length (cnpj_weights d) < length d"
    using assms by (simp add: cnpj_weights_length)
  then have "weighted_sum (cnpj_weights d) d = NaN"
    by (rule weighted_sum_out_of_bounds)
  then show ?thesis by (simp add: calculateCnpjVerifier_def)
qed

lemma not_NaN_list: "list_all (\<lambda>x. x \<noteq> NaN) d \<Longrightarrow> \<exists>ds. d = map Num ds"
proof (induction d)
  case Nil
  then show ?case by simp
next
  case (Cons x d)
  then obtain ds where "d = map Num ds" by auto
  moreover from Cons.prems obtain n where "x = Num n" by (cases x) auto
  ultimately have "x # d = map Num (n # ds)" by simp
  then show ?case by (rule exI)
qed

lemma weighted_sum_total:
  assumes "list_all (\<lambda>x. x \<noteq> NaN) ws" and "list_all (\<lambda>x. x \<noteq> NaN) d" and "length d \<le> length ws"
  shows "weighted_sum ws d \<noteq> NaN"
proof -
  from not_NaN_list [OF assms(1)] obtain ws' where ws: "ws = map Num ws'" by blast
  from not_NaN_list [OF assms(2)] obtain ds where d: "d = map Num ds" by blast
  from assms(3) have "length ds \<le> length ws'" by (simp add: ws d)
  then show ?thesis unfolding ws d by (simp add: weighted_sum_Num)
qed

lemma cnpj_weights_numbers: "list_all (\<lambda>x. x \<noteq> NaN) (cnpj_weights d)"
  by (simp add: cnpj_weights_def cnpj_base_weights_def)

lemma cpf_weights_numbers: "list_all (\<lambda>x. x \<noteq> NaN) (cpf_weights d)"
  by (simp add: cpf_weights_def array_from_def list_all_iff)

text \<open>
  Claim C10. For an input of length 12 the CNPJ weight array has 12 entries and for
  length 13 it has 13, so every read \<^verbatim>\<open>weights[i]\<close> of the sum is in bounds and the sum
  of numbers is a number. For an input longer than 13 some read is out of bounds (and the
  function returns \<^verbatim>\<open>NaN\<close>). The CPF weight array has the length of the input, every
  read is in bounds for every input, and the empty input gives 0.
\<close>

theorem weight_lookups_in_bounds:
  "(length d = 12 \<longrightarrow> length (cnpj_weights d) = 12)
   \<and> (length d = 13 \<longrightarrow> length (cnpj_weights d) = 13)
   \<and> (length d = 12 \<or> length d = 13 \<longrightarrow>
        (\<forall>i<length d. js_index (cnpj_weights d) i \<noteq> None)
        \<and> (list_all (\<lambda>x. x \<noteq> NaN) d \<longrightarrow> weighted_sum (cnpj_weights d) d \<noteq> NaN))
   \<and> (13 < length d \<longrightarrow>
        (\<exists>i<length d. js_index (cnpj_weights d) i = None) \<and> calculateCnpjVerifier d = NaN)
   \<and> length (cpf_weights d) = length d
   \<and> (\<forall>i<length d. js_index (cpf_weights d) i \<noteq> None)
   \<and> (list_all (\<lambda>x. x \<noteq> NaN) d \<longrightarrow> weighted_sum (cpf_weights d) d \<noteq> NaN)
   \<and> calculateCpfVerifier [] = Num 0"
proof (intro conjI impI)
  assume "length d = 12"
  then show "length (cnpj_weights d) = 12" by (simp add: cnpj_weights_length)
next
  assume "length d = 13"
  then show "length (cnpj_weights d) = 13" by (simp add: cnpj_weights_length)
next
  assume "length d = 12 \<or> length d = 13"
  then show "\<forall>i<length d. js_index (cnpj_weights d) i \<noteq> None"
    by (auto simp: js_index_def cnpj_weights_length)
next
  assume "length d = 12 \<or> length d = 13" and "list_all (\<lambda>x. x \<noteq> NaN) d"
  then show "weighted_sum (cnpj_weights d) d \<noteq> NaN"
    by (intro weighted_sum_total cnpj_weights_numbers) (auto simp: cnpj_weights_length)
next
  assume "13 < length d"
  then have "12 < length d" "js_index (cnpj_weights d) 12 = None"
    by (simp_all add: js_index_def cnpj_weights_length)
  then show "\<exists>i<length d. js_index (cnpj_weights d) i = None" by blast
next
  assume "13 < length d"
  then show "calculateCnpjVerifier d = NaN" by (rule cnpj_long_input_NaN)
next
  show "length (cpf_weights d) = length d" by (rule cpf_weights_length)
next
  show "\<forall>i<length d. js_index (cpf_weights d) i \<noteq> None"
    by (simp add: js_index_def cpf_weights_length)
next
  assume "list_all (\<lambda>x. x \<noteq> NaN) d"
  then show "weighted_sum (cpf_weights d) d \<noteq> NaN"
    by (intro weighted_sum_total cpf_weights_numbers) (simp_all add: cpf_weights_length)
next
  show "calculateCpfVerifier [] = Num 0" by code_simp
qed

theorem weight_lookups_in_bounds_witness:
  "length (cnpj_weights (map Num [1, 1, 2, 2, 2, 3, 3, 3, 0, 0, 0, 1])) = 12
   \<and> length (cnpj_weights (map Num [1, 1, 2, 2, 2, 3, 3, 3, 0, 0, 0, 1, 8])) = 13
   \<and> js_index (cnpj_weights (map Num [1, 1, 2, 2, 2, 3, 3, 3, 0, 0, 0, 1, 8])) 12 \<noteq> None
   \<and> weighted_sum (cnpj_weights (map Num [1, 1, 2, 2, 2, 3, 3, 3, 0, 0, 0, 1])) (map Num [1, 1, 2, 2, 2, 3, 3, 3, 0, 0, 0, 1]) \<noteq> NaN
   \<and> (\<exists>i<length (map Num [1, 1, 2, 2, 2, 3, 3, 3, 0, 0, 0, 1, 8, 1]). js_index (cnpj_weights (map Num [1, 1, 2, 2, 2, 3, 3, 3, 0, 0, 0, 1, 8, 1])) i = None)
   \<and> calculateCnpjVerifier (map Num [1, 1, 2, 2, 2, 3, 3, 3, 0, 0, 0, 1, 8, 1]) = NaN
   \<and> js_index (cpf_weights (map Num [1, 1, 2, 2, 2, 3, 3, 3, 0, 0, 0, 1])) 11 \<noteq> None
   \<and> weighted_sum (cpf_weights (map Num [1, 1, 2, 2, 2, 3, 3, 3, 0, 0, 0, 1])) (map Num [1, 1, 2, 2, 2, 3, 3, 3, 0, 0, 0, 1]) \<noteq> NaN"
proof -
  let ?d12 = "map Num [1, 1, 2, 2, 2, 3, 3, 3, 0, 0, 0, 1]"
  let ?d13 = "map Num [1, 1, 2, 2, 2, 3, 3, 3, 0, 0, 0, 1, 8]"
  let ?d14 = "map Num [1, 1, 2, 2, 2, 3, 3, 3, 0, 0, 0, 1, 8, 1]"
  note t12 = weight_lookups_in_bounds [of ?d12]
  note t13 = weight_lookups_in_bounds [of ?d13]
  note t14 = weight_lookups_in_bounds [of ?d14]
  have l12: "length ?d12 = 12" and l13: "length ?d13 = 13" and l14: "13 < length ?d14"
    by simp_all
  have i12: "11 < length ?d12" and i13: "12 < length ?d13"
    by simp_all
  have n12: "list_all (\<lambda>x. x \<noteq> NaN) ?d12"
    by simp
  from t12 l12 have a: "length (cnpj_weights ?d12) = 12" by blast
  from t13 l13 have b: "length (cnpj_weights ?d13) = 13" by blast
  from t13 l13 i13 have c: "js_index (cnpj_weights ?d13) 12 \<noteq> None" by blast
  from t12 l12 n12 have d: "weighted_sum (cnpj_weights ?d12) ?d12 \<noteq> NaN" by blast
  from t14 l14 have e: "\<exists>i<length ?d14. js_index (cnpj_weights ?d14) i = None"
    and f: "calculateCnpjVerifier ?d14 = NaN" by blast+
  from t12 i12 have g: "js_index (cpf_weights ?d12) 11 \<noteq> None" by blast
  from t12 n12 have h: "weighted_sum (cpf_weights ?d12) ?d12 \<noteq> NaN" by blast
  from a b c d e f g h show ?thesis by (intro conjI)
qed


section \<open>Calls do not interfere\<close>

lemma array_read_at: "arrays h a = Some xs \<Longrightarrow> array_read h a i = js_index xs i"
  by (simp add: array_read_def)

lemma weighted_sum_heap_at:
  "arrays h a = Some ws \<Longrightarrow> weighted_sum_heap h a digits = weighted_sum ws digits"
  by (simp add: weighted_sum_heap_def weighted_sum_def array_read_at)

lemma cpf_heap_result:
  "fst (calculateCpfVerifier_heap digits h) = calculateCpfVerifier digits"
  by (simp add: calculateCpfVerifier_heap_def calculateCpfVerifier_def new_array_def
      weighted_sum_heap_at cpf_weights_def Let_def)

lemma cnpj_heap_result:
  "fst (calculateCnpjVerifier_heap digits h) = calculateCnpjVerifier digits"
  by (simp add: calculateCnpjVerifier_heap_def calculateCnpjVerifier_def new_array_def
      array_unshift_def weighted_sum_heap_at cnpj_weights_def Let_def)

lemma heap_result: "fst (computeVerifier_heap k digits h) = computeVerifier k digits"
  by (cases k) (simp_all add: cpf_heap_result cnpj_heap_result)

lemma cpf_heap_store:
  "arrays (snd (calculateCpfVerifier_heap digits h)) a
     = (if a = next_addr h then Some (cpf_weights digits) else arrays h a)"
  "next_addr (snd (calculateCpfVerifier_heap digits h)) = Suc (next_addr h)"
  by (simp_all add: calculateCpfVerifier_heap_def new_array_def cpf_weights_def Let_def)

lemma cnpj_heap_store:
  "arrays (snd (calculateCnpjVerifier_heap digits h)) a
     = (if a = next_addr h then Some (cnpj_weights digits) else arrays h a)"
  "next_addr (snd (calculateCnpjVerifier_heap digits h)) = Suc (next_addr h)"
  by (simp_all add: calculateCnpjVerifier_heap_def new_array_def array_unshift_def
      cnpj_weights_def Let_def)

lemma heap_store:
  "arrays (snd (computeVerifier_heap k digits h)) a
     = (if a = next_addr h then Some (call_weights (k, digits)) else arrays h a)"
  "next_addr (snd (computeVerifier_heap k digits h)) = Suc (next_addr h)"
  by (cases k; simp add: cpf_heap_store cnpj_heap_store call_weights_def)+

lemma run_calls_frame:
  "a < next_addr h \<Longrightarrow> arrays (run_calls cs h) a = arrays h a"
proof (induction cs arbitrary: h)
  case Nil
  then show ?case by simp
next
  case (Cons c cs)
  obtain k digits where c: "c = (k, digits)" by (cases c)
  from Cons.prems have "a < next_addr (snd (computeVerifier_heap k digits h))"
    by (simp add: heap_store)
  then have "arrays (run_calls cs (snd (computeVerifier_heap k digits h))) a
             = arrays (snd (computeVerifier_heap k digits h)) a"
    by (rule Cons.IH)
  with Cons.prems show ?case by (simp add: c heap_store)
qed

lemma run_calls_tables:
  "j < length cs \<Longrightarrow> arrays (run_calls cs h) (next_addr h + j) = Some (call_weights (cs ! j))"
proof (induction cs arbitrary: h j)
  case Nil
  then show ?case by simp
next
  case (Cons c cs)
  obtain k digits where c: "c = (k, digits)" by (cases c)
  let ?h1 = "snd (computeVerifier_heap k digits h)"
  show ?case
  proof (cases j)
    case 0
    have "arrays (run_calls cs ?h1) (next_addr h) = arrays ?h1 (next_addr h)"
      by (rule run_calls_frame) (simp add: heap_store)
    then show ?thesis by (simp add: 0 c heap_store)
  next
    case (Suc j')
    with Cons.prems have "j' < length cs" by simp
    then have "arrays (run_calls cs ?h1) (next_addr ?h1 + j') = Some (call_weights (cs ! j'))"
      by (rule Cons.IH)
    then show ?thesis by (simp add: Suc c heap_store)
  qed
qed

text \<open>
  Claim C9. The verifier digit depends on the digits and the kind only: a call returns
  the same number in whatever store it runs, after whatever calls, and that number is the
  value of the function without a store. Each call reads an array of its own: after any
  sequence of calls every call's array is still what that call built, and the arrays that
  were there before are unchanged, so the 6 a 13-digit call puts in front of its array is
  in no other call's array.
\<close>

theorem verifier_is_pure:
  "fst (computeVerifier_heap k digits (run_calls cs h))
     = fst (computeVerifier_heap k digits (run_calls cs' h'))
   \<and> fst (computeVerifier_heap k digits h) = computeVerifier k digits
   \<and> (\<forall>j<length cs. arrays (run_calls cs h) (next_addr h + j) = Some (call_weights (cs ! j)))
   \<and> (\<forall>a<next_addr h. arrays (run_calls cs h) a = arrays h a)"
  by (simp add: heap_result run_calls_tables run_calls_frame)







theorem verifier_is_pure_witness:
  "fst (computeVerifier_heap CNPJ (map Num [1, 1, 2, 2, 2, 3, 3, 3, 0, 0, 0, 1])
         (run_calls [(CNPJ, map Num [1, 1, 2, 2, 2, 3, 3, 3, 0, 0, 0, 1, 8])] empty_heap))
     = fst (computeVerifier_heap CNPJ (map Num [1, 1, 2, 2, 2, 3, 3, 3, 0, 0, 0, 1])
         (run_calls [] empty_heap))
   \<and> arrays (run_calls [(CNPJ, map Num [1, 1, 2, 2, 2, 3, 3, 3, 0, 0, 0, 1, 8]),
                        (CNPJ, map Num [1, 1, 2, 2, 2, 3, 3, 3, 0, 0, 0, 1])] empty_heap) 1
     = Some cnpj_base_weights
   \<and> arrays (run_calls [(CNPJ, map Num [1, 1, 2, 2, 2, 3, 3, 3, 0, 0, 0, 1])]
        (run_calls [(CNPJ, map Num [1, 1, 2, 2, 2, 3, 3, 3, 0, 0, 0, 1, 8])] empty_heap)) 0
     = Some (Num 6 # cnpj_base_weights)"
proof -
  let ?d13 = "map Num [1, 1, 2, 2, 2, 3, 3, 3, 0, 0, 0, 1, 8]"
  let ?d12 = "map Num [1, 1, 2, 2, 2, 3, 3, 3, 0, 0, 0, 1]"
  have w12: "call_weights ([(CNPJ, ?d13), (CNPJ, ?d12)] ! 1) = cnpj_base_weights"
    by (simp add: call_weights_def cnpj_weights_def)
  have n0: "next_addr empty_heap = 0" by (simp add: empty_heap_def)
  have n1: "next_addr (run_calls [(CNPJ, ?d13)] empty_heap) = 1"
    by (simp add: cnpj_heap_store empty_heap_def)
  have a0: "arrays (run_calls [(CNPJ, ?d13)] empty_heap) 0 = Some (Num 6 # cnpj_base_weights)"
    by (simp add: cnpj_heap_store empty_heap_def cnpj_weights_def)
  have res: "fst (computeVerifier_heap CNPJ ?d12 (run_calls [(CNPJ, ?d13)] empty_heap))
             = fst (computeVerifier_heap CNPJ ?d12 (run_calls [] empty_heap))"
    using verifier_is_pure [of CNPJ ?d12 "[(CNPJ, ?d13)]" empty_heap "[]" empty_heap] by blast
  have l: "(1::nat) < length [(CNPJ, ?d13), (CNPJ, ?d12)]" by simp
  have "arrays (run_calls [(CNPJ, ?d13), (CNPJ, ?d12)] empty_heap) (next_addr empty_heap + 1)
        = Some (call_weights ([(CNPJ, ?d13), (CNPJ, ?d12)] ! 1))"
    using verifier_is_pure [of CNPJ ?d12 "[(CNPJ, ?d13), (CNPJ, ?d12)]" empty_heap "[]" empty_heap] l
    by blast
  then have tab: "arrays (run_calls [(CNPJ, ?d13), (CNPJ, ?d12)] empty_heap) 1
                  = Some cnpj_base_weights"
    by (simp only: w12 n0 add_0)
  have p: "0 < next_addr (run_calls [(CNPJ, ?d13)] empty_heap)" by (simp only: n1)
  have "arrays (run_calls [(CNPJ, ?d12)] (run_calls [(CNPJ, ?d13)] empty_heap)) 0
        = arrays (run_calls [(CNPJ, ?d13)] empty_heap) 0"
    using verifier_is_pure [of CNPJ ?d12 "[(CNPJ, ?d12)]" "run_calls [(CNPJ, ?d13)] empty_heap"
        "[]" empty_heap] p
    by blast
  then have frame: "arrays (run_calls [(CNPJ, ?d12)] (run_calls [(CNPJ, ?d13)] empty_heap)) 0
                    = Some (Num 6 # cnpj_base_weights)"
    by (simp only: a0)
  from res tab frame show ?thesis by (intro conjI)
qed

end
